theory Spec2Isabelle
  imports Complex_Main "HOL-Library.AList"
begin

section \<open>Data model of firestore.js\<close>

text \<open>
  A document payload is a JavaScript object; it is modelled as an association list of
  field names and (serialised) values, in insertion order. A queue item is the object
  literal built by \<open>BackgroundSyncQueue.enqueue\<close>; its field \<open>id\<close> is called
  \<open>item_id\<close> here. Times are \<open>Date.now()\<close> values: integers, in milliseconds.
\<close>

type_synonym payload = "(string \<times> string) list"

record item =
  operation :: string
  collection :: string
  data :: payload
  item_id :: string
  timestamp :: int
  attempts :: nat

text \<open>
  A document reference \<open>users/<uid>/<collection>/<id>\<close> is the triple of user id,
  collection and document id. A write is what is put into a Firestore batch, or sent
  directly: \<open>set(ref, payload, {merge: true})\<close> or \<open>delete(ref)\<close>.
\<close>

type_synonym docRef = "string \<times> string \<times> string"

datatype fwrite = SetMerge docRef payload | Delete docRef

text \<open>
  The Firestore SDK is outside the repository. What the code depends on is whether
  building a reference (\<open>collection(..).doc(..)\<close>) and adding a \<open>set\<close> to a batch
  throw; both are parameters. The result of \<open>commit()\<close>, \<open>set()\<close> and \<open>delete()\<close>
  (a promise that resolves or rejects) is an input of the step that resumes the caller.
\<close>

record firestore =
  ref_ok :: "string \<Rightarrow> string \<Rightarrow> string \<Rightarrow> bool"
  data_ok :: "payload \<Rightarrow> bool"

record stats =
  reads :: int
  writes :: int
  history :: "(int \<times> int \<times> int) list"
  lastReset :: int

text \<open>
  The chart object, as far as the code touches it: the labels and the two data sets.
  A label is the time of day of the instant it was made at
  (\<open>toLocaleTimeString\<close>); the model stores the instant.
\<close>

record chart =
  labels :: "int list"
  reads_data :: "int list"
  writes_data :: "int list"

datatype log_event =
    ErrProcessing string
  | SyncedOps nat
  | BatchCommitFailed
  | SkippingNotLoggedIn
  | Queued string string
  | ImmediateDone string string
  | ImmediateError string
  | SaveStatsError

text \<open>
  A drain loop (\<open>processQueue\<close>) is suspended at one of its three \<open>await\<close>s: inside
  \<open>processBatch\<close> at \<open>await firestoreBatch.commit()\<close> (holding the batch as the loop
  left it, the writes and \<open>operationCount\<close>), at \<open>await this.processBatch(batch)\<close>
  when \<open>processBatch\<close> has returned, or at \<open>await this.sleep(..)\<close>.
\<close>

datatype task =
    AwaitCommit "item list" "fwrite list" nat
  | AwaitBatch
  | Sleeping

text \<open>
  The state: the fields of \<open>BackgroundSyncQueue\<close>, the globals \<open>currentUser\<close> (its id)
  and \<open>firebaseDB\<close> (whether it is set), the usage tracker's \<open>firestoreStats\<close> and
  \<open>firestoreUsageChart\<close>, the \<open>firestoreStats\<close> entry of \<open>localStorage\<close> (and
  whether \<open>setItem\<close> succeeds), the console, the batches and single writes the remote
  store has committed (oldest first), and the drain loops that are suspended.
\<close>

record world =
  queue :: "item list"
  processing :: bool
  batchSize :: nat
  throttleDelay :: nat
  retryAttempts :: nat
  currentUser :: "string option"
  firebaseDB :: bool
  firestoreStats :: stats
  firestoreUsageChart :: "chart option"
  localStorage :: "stats option"
  storage_ok :: bool
  console :: "log_event list"
  remote :: "fwrite list list"
  drains :: "task list"

definition init :: "int \<Rightarrow> world" where
  "init t0 = \<lparr>queue = [], processing = False, batchSize = 50, throttleDelay = 1000,
     retryAttempts = 3, currentUser = None, firebaseDB = False,
     firestoreStats = \<lparr>reads = 0, writes = 0, history = [], lastReset = t0\<rparr>,
     firestoreUsageChart = None, localStorage = None, storage_ok = True,
     console = [], remote = [], drains = []\<rparr>"

section \<open>Usage tracker\<close>

definition saveFirestoreStats :: "world \<Rightarrow> world" where
  "saveFirestoreStats w =
     (if storage_ok w then w\<lparr>localStorage := Some (firestoreStats w)\<rparr>
      else w\<lparr>console := console w @ [SaveStatsError]\<rparr>)"

definition updateFirestoreChart :: "int \<Rightarrow> world \<Rightarrow> world" where
  "updateFirestoreChart now w =
     (case firestoreUsageChart w of
        None \<Rightarrow> w
      | Some c \<Rightarrow>
          let c1 = c\<lparr>labels := labels c @ [now],
                     reads_data := reads_data c @ [reads (firestoreStats w)],
                     writes_data := writes_data c @ [writes (firestoreStats w)]\<rparr>;
              c2 = (if length (labels c1) > 10
                    then c1\<lparr>labels := tl (labels c1), reads_data := tl (reads_data c1),
                            writes_data := tl (writes_data c1)\<rparr>
                    else c1)
          in w\<lparr>firestoreUsageChart := Some c2\<rparr>)"

text \<open>The two text fields of the page are display only and are left out.\<close>

definition updateFirestoreDisplay :: "int \<Rightarrow> world \<Rightarrow> world" where
  "updateFirestoreDisplay now w =
     (if (reads (firestoreStats w) + writes (firestoreStats w)) mod 10 = 0
      then updateFirestoreChart now w else w)"

text \<open>
  \<open>hoursSinceReset\<close> is the quotient \<open>(now - lastReset) / (1000 * 60 * 60)\<close>, compared
  with 24. The code divides in double precision; for the integer millisecond values of
  \<open>Date.now()\<close> the comparison with 24 comes out as for the exact quotient (24 is a
  double, rounding is monotone, and an exact quotient below 24 is below it by at least
  \<open>1 / 3600000\<close>), so the exact quotient is taken.
\<close>

definition hoursSinceReset :: "int \<Rightarrow> world \<Rightarrow> rat" where
  "hoursSinceReset now w = of_int (now - lastReset (firestoreStats w)) / (1000 * 60 * 60)"

definition checkAndAutoResetFirestoreStats :: "int \<Rightarrow> world \<Rightarrow> world" where
  "checkAndAutoResetFirestoreStats now w =
     (if hoursSinceReset now w \<ge> 24 then
        let w1 = w\<lparr>firestoreStats :=
                     (firestoreStats w)\<lparr>reads := 0, writes := 0, history := [],
                                          lastReset := now\<rparr>\<rparr>;
            w2 = updateFirestoreDisplay now (saveFirestoreStats w1)
        in (case firestoreUsageChart w2 of
              None \<Rightarrow> w2
            | Some c \<Rightarrow> w2\<lparr>firestoreUsageChart :=
                             Some (c\<lparr>labels := [], reads_data := [], writes_data := []\<rparr>)\<rparr>)
      else w)"

definition trackFirestoreRead :: "int \<Rightarrow> int \<Rightarrow> world \<Rightarrow> world" where
  "trackFirestoreRead count now w =
     (let w1 = checkAndAutoResetFirestoreStats now w;
          w2 = w1\<lparr>firestoreStats :=
                     (firestoreStats w1)\<lparr>reads := reads (firestoreStats w1) + count\<rparr>\<rparr>
      in updateFirestoreDisplay now (saveFirestoreStats w2))"

definition trackFirestoreWrite :: "int \<Rightarrow> int \<Rightarrow> world \<Rightarrow> world" where
  "trackFirestoreWrite count now w =
     (let w1 = checkAndAutoResetFirestoreStats now w;
          w2 = w1\<lparr>firestoreStats :=
                     (firestoreStats w1)\<lparr>writes := writes (firestoreStats w1) + count\<rparr>\<rparr>
      in updateFirestoreDisplay now (saveFirestoreStats w2))"

definition resetFirestoreStats :: "int \<Rightarrow> world \<Rightarrow> world" where
  "resetFirestoreStats now w =
     (let w1 = w\<lparr>firestoreStats := \<lparr>reads = 0, writes = 0, history = [], lastReset = now\<rparr>\<rparr>;
          w2 = updateFirestoreDisplay now w1
      in (case firestoreUsageChart w2 of
            None \<Rightarrow> w2
          | Some c \<Rightarrow> w2\<lparr>firestoreUsageChart :=
                           Some (c\<lparr>labels := [], reads_data := [], writes_data := []\<rparr>)\<rparr>))"

section \<open>The background sync queue\<close>

text \<open>
  The object written by \<open>set\<close>: the item's data with \<open>updatedAt\<close> and \<open>syncedAt\<close>
  set to the server-timestamp sentinel (a spread followed by the two fields: a field the
  data already has keeps its place and takes the new value).
\<close>

definition serverTimestamp :: string where
  "serverTimestamp = ''<serverTimestamp>''"

definition stamp :: "payload \<Rightarrow> payload" where
  "stamp d = AList.update ''syncedAt'' serverTimestamp
               (AList.update ''updatedAt'' serverTimestamp d)"

text \<open>
  The body of the \<open>try\<close> in the loop of \<open>processBatch\<close> for one item: a write added to
  the batch, nothing (an operation the \<open>switch\<close> has no case for), or an exception.
\<close>

datatype built = Added fwrite | Skipped | Threw

definition build_write :: "firestore \<Rightarrow> string \<Rightarrow> item \<Rightarrow> built" where
  "build_write fs uid x =
     (if \<not> ref_ok fs uid (collection x) (item_id x) then Threw
      else if operation x = ''create'' \<or> operation x = ''update'' then
        (if data_ok fs (stamp (data x))
         then Added (SetMerge (uid, collection x, item_id x) (stamp (data x)))
         else Threw)
      else if operation x = ''delete'' then Added (Delete (uid, collection x, item_id x))
      else Skipped)"

text \<open>
  The \<open>for\<close> loop of \<open>processBatch\<close>. It returns the state, the batch as the loop leaves
  it (\<open>item.attempts++\<close> changes the object that the batch holds too), the writes added
  and \<open>operationCount\<close>.
\<close>

fun build_batch ::
  "firestore \<Rightarrow> string \<Rightarrow> item list \<Rightarrow> world \<Rightarrow> world \<times> item list \<times> fwrite list \<times> nat" where
  "build_batch fs uid [] w = (w, [], [], 0)"
| "build_batch fs uid (x # xs) w =
     (case build_write fs uid x of
        Added wr \<Rightarrow>
          (case build_batch fs uid xs w of
             (w', b, ops, n) \<Rightarrow> (w', x # b, wr # ops, Suc n))
      | Skipped \<Rightarrow>
          (case build_batch fs uid xs w of
             (w', b, ops, n) \<Rightarrow> (w', x # b, ops, n))
      | Threw \<Rightarrow>
          (let w1 = w\<lparr>console := console w @ [ErrProcessing (operation x)]\<rparr> in
           if attempts x < retryAttempts w1 then
             (let x' = x\<lparr>attempts := attempts x + 1\<rparr> in
              case build_batch fs uid xs (w1\<lparr>queue := queue w1 @ [x']\<rparr>) of
                (w', b, ops, n) \<Rightarrow> (w', x' # b, ops, n))
           else
             (case build_batch fs uid xs w1 of
                (w', b, ops, n) \<Rightarrow> (w', x # b, ops, n))))"

text \<open>
  \<open>processBatch\<close>, up to its first suspension: without a session the batch is pushed
  onto the queue and the function returns; otherwise the writes are built and, when
  there is at least one, \<open>commit()\<close> is called and awaited. \<open>firebaseDB.batch()\<close> and,
  after the commit, the calls of the usage tracker are taken not to throw, so the
  \<open>catch\<close> of \<open>processQueue\<close> is never entered.
\<close>

definition processBatch :: "firestore \<Rightarrow> item list \<Rightarrow> world \<Rightarrow> world \<times> task" where
  "processBatch fs batch w =
     (case (firebaseDB w, currentUser w) of
        (True, Some uid) \<Rightarrow>
          (case build_batch fs uid batch w of
             (w', b, ops, n) \<Rightarrow>
               if n > 0 then (w', AwaitCommit b ops n) else (w', AwaitBatch))
      | _ \<Rightarrow> (w\<lparr>queue := queue w @ batch\<rparr>, AwaitBatch))"

text \<open>
  \<open>processBatch\<close> after \<open>commit()\<close> has settled: resolved (the remote store holds the
  batch; the writes are counted) or rejected (every item of the batch is pushed with
  \<open>attempts + 1\<close>).
\<close>

definition processBatch_committed ::
  "bool \<Rightarrow> int \<Rightarrow> item list \<Rightarrow> fwrite list \<Rightarrow> nat \<Rightarrow> world \<Rightarrow> world" where
  "processBatch_committed ok now b ops n w =
     (if ok then
        (let w1 = trackFirestoreWrite (int n) now (w\<lparr>remote := remote w @ [ops]\<rparr>)
         in w1\<lparr>console := console w1 @ [SyncedOps n]\<rparr>)
      else
        (let w1 = w\<lparr>console := console w @ [BatchCommitFailed]\<rparr>
         in w1\<lparr>queue := queue w1 @ map (\<lambda>x. x\<lparr>attempts := attempts x + 1\<rparr>) b\<rparr>))"

text \<open>
  The \<open>while\<close> loop of \<open>processQueue\<close> from its test to the next suspension. \<open>None\<close>
  means that the loop has ended (and \<open>finally\<close> has cleared \<open>processing\<close>).
\<close>

definition loop_head :: "firestore \<Rightarrow> world \<Rightarrow> world \<times> task option" where
  "loop_head fs w =
     (if queue w = [] then (w\<lparr>processing := False\<rparr>, None)
      else
        (let batch = take (batchSize w) (queue w);
             w1 = w\<lparr>queue := drop (batchSize w) (queue w)\<rparr>
         in case processBatch fs batch w1 of (w2, t) \<Rightarrow> (w2, Some t)))"

text \<open>After \<open>await this.processBatch(batch)\<close>: sleep if the queue is not empty.\<close>

definition after_batch :: "world \<Rightarrow> world \<times> task option" where
  "after_batch w =
     (if queue w \<noteq> [] then (w, Some Sleeping) else (w\<lparr>processing := False\<rparr>, None))"

definition processQueue :: "firestore \<Rightarrow> world \<Rightarrow> world" where
  "processQueue fs w =
     (if processing w \<or> queue w = [] then w
      else
        (case loop_head fs (w\<lparr>processing := True\<rparr>) of
           (w', None) \<Rightarrow> w'
         | (w', Some t) \<Rightarrow> w'\<lparr>drains := drains w' @ [t]\<rparr>))"

text \<open>
  \<open>enqueue\<close>: \<open>gen\<close> is what \<open>generateId()\<close> returns and \<open>now\<close> what \<open>Date.now()\<close>
  returns in this call. \<open>id || this.generateId()\<close> takes the generated id for \<open>null\<close>
  and for the empty string.
\<close>

definition enqueue ::
  "firestore \<Rightarrow> string \<Rightarrow> string \<Rightarrow> payload \<Rightarrow> string option \<Rightarrow> string \<Rightarrow> int \<Rightarrow> world \<Rightarrow> world" where
  "enqueue fs op coll d idopt gen now w =
     (let x = \<lparr>operation = op, collection = coll, data = d,
               item_id = (case idopt of None \<Rightarrow> gen | Some i \<Rightarrow> if i = [] then gen else i),
               timestamp = now, attempts = 0\<rparr>;
          w1 = w\<lparr>queue := queue w @ [x]\<rparr>
      in if \<not> processing w1 then processQueue fs w1 else w1)"

record status =
  queueLength :: nat
  status_processing :: bool
  pending :: nat

definition getStatus :: "world \<Rightarrow> status" where
  "getStatus w = \<lparr>queueLength = length (queue w), status_processing = processing w,
                  pending = length (queue w)\<rparr>"

definition clear :: "world \<Rightarrow> world" where
  "clear w = w\<lparr>queue := [], processing := False\<rparr>"

text \<open>
  Resuming the suspended drain loop number \<open>k\<close>. \<open>ok\<close> and \<open>now\<close> are used when the
  loop waits for \<open>commit()\<close>: whether the promise resolved, and the time at which the
  writes are counted.
\<close>

definition resume_task :: "firestore \<Rightarrow> bool \<Rightarrow> int \<Rightarrow> task \<Rightarrow> world \<Rightarrow> world \<times> task option" where
  "resume_task fs ok now t w =
     (case t of
        AwaitCommit b ops n \<Rightarrow> (processBatch_committed ok now b ops n w, Some AwaitBatch)
      | AwaitBatch \<Rightarrow> after_batch w
      | Sleeping \<Rightarrow> loop_head fs w)"

definition resume :: "firestore \<Rightarrow> nat \<Rightarrow> bool \<Rightarrow> int \<Rightarrow> world \<Rightarrow> world" where
  "resume fs k ok now w =
     (if k < length (drains w) then
        (case resume_task fs ok now (drains w ! k) w of
           (w', Some t) \<Rightarrow> w'\<lparr>drains := (drains w')[k := t]\<rparr>
         | (w', None) \<Rightarrow> w'\<lparr>drains := take k (drains w') @ drop (Suc k) (drains w')\<rparr>)
      else w)"

section \<open>Public sync functions\<close>

text \<open>\<open>data.id || fallback\<close>: the field \<open>id\<close> of the payload unless missing or empty.\<close>

definition data_id :: "payload \<Rightarrow> string \<Rightarrow> string" where
  "data_id d fallback =
     (case map_of d ''id'' of None \<Rightarrow> fallback | Some i \<Rightarrow> if i = [] then fallback else i)"

definition queueBackgroundSync ::
  "firestore \<Rightarrow> string \<Rightarrow> payload \<Rightarrow> string \<Rightarrow> string \<Rightarrow> int \<Rightarrow> world \<Rightarrow> world" where
  "queueBackgroundSync fs coll d op gen now w =
     (if currentUser w = None \<or> \<not> firebaseDB w
      then w\<lparr>console := console w @ [SkippingNotLoggedIn]\<rparr>
      else
        (let w1 = enqueue fs op coll d (Some (data_id d gen)) gen now w
         in w1\<lparr>console := console w1 @ [Queued op coll]\<rparr>))"

datatype error = NotLoggedIn | RemoteError string

text \<open>
  \<open>immediateSync\<close>. \<open>res\<close> is how the awaited \<open>set\<close> or \<open>delete\<close> settles
  (\<open>None\<close>: resolved; \<open>Some e\<close>: rejected with \<open>e\<close>); building the reference or the
  payload may throw as in \<open>processBatch\<close>, which the \<open>catch\<close> logs and rethrows as well
  (\<open>thrown\<close> is the error then). \<open>fallback\<close> is \<open>Date.now().toString()\<close>.
\<close>

definition immediateSync ::
  "firestore \<Rightarrow> string \<Rightarrow> payload \<Rightarrow> string \<Rightarrow> string \<Rightarrow> string option \<Rightarrow> string \<Rightarrow> int \<Rightarrow>
   world \<Rightarrow> world \<times> (error + bool)" where
  "immediateSync fs coll d op fallback res thrown now w =
     (case (currentUser w, firebaseDB w) of
        (Some uid, True) \<Rightarrow>
          (case build_write fs uid
                  \<lparr>operation = op, collection = coll, data = d,
                   item_id = data_id d fallback, timestamp = now, attempts = 0\<rparr> of
             Threw \<Rightarrow> (w\<lparr>console := console w @ [ImmediateError thrown]\<rparr>,
                        Inl (RemoteError thrown))
           | Skipped \<Rightarrow> (w\<lparr>console := console w @ [ImmediateDone op coll]\<rparr>, Inr True)
           | Added wr \<Rightarrow>
               (case res of
                  Some e \<Rightarrow> (w\<lparr>console := console w @ [ImmediateError e]\<rparr>,
                             Inl (RemoteError e))
                | None \<Rightarrow>
                    (let w1 = trackFirestoreWrite 1 now (w\<lparr>remote := remote w @ [[wr]]\<rparr>)
                     in (w1\<lparr>console := console w1 @ [ImmediateDone op coll]\<rparr>, Inr True))))
      | _ \<Rightarrow> (w, Inl NotLoggedIn))"

section \<open>Executions\<close>

text \<open>
  The runtime is single threaded: an execution is a sequence of calls from outside and
  of resumptions of suspended drain loops, each running to its next suspension.
\<close>

datatype event =
    Enqueue string string payload "string option" string int
  | Drain
  | Resume nat bool int
  | Clear
  | SetSession "string option" bool

fun step :: "firestore \<Rightarrow> event \<Rightarrow> world \<Rightarrow> world" where
  "step fs (Enqueue op coll d idopt gen now) w = enqueue fs op coll d idopt gen now w"
| "step fs Drain w = processQueue fs w"
| "step fs (Resume k ok now) w = resume fs k ok now w"
| "step fs Clear w = clear w"
| "step fs (SetSession u db) w = w\<lparr>currentUser := u, firebaseDB := db\<rparr>"

fun run :: "firestore \<Rightarrow> event list \<Rightarrow> world \<Rightarrow> world" where
  "run fs [] w = w"
| "run fs (e # es) w = run fs es (step fs e w)"

section \<open>Notions used by the properties\<close>

text \<open>The item that an \<open>enqueue\<close> call makes, and the items of a sequence of events.\<close>

definition new_item :: "string \<Rightarrow> string \<Rightarrow> payload \<Rightarrow> string option \<Rightarrow> string \<Rightarrow> int \<Rightarrow> item" where
  "new_item op coll d idopt gen now =
     \<lparr>operation = op, collection = coll, data = d,
      item_id = (case idopt of None \<Rightarrow> gen | Some i \<Rightarrow> if i = [] then gen else i),
      timestamp = now, attempts = 0\<rparr>"

fun enqueued :: "event list \<Rightarrow> item list" where
  "enqueued [] = []"
| "enqueued (Enqueue op coll d idopt gen now # es) =
     new_item op coll d idopt gen now # enqueued es"
| "enqueued (e # es) = enqueued es"

text \<open>The remote operation that stands for an item under user \<open>uid\<close>.\<close>

definition item_write :: "string \<Rightarrow> item \<Rightarrow> fwrite" where
  "item_write uid x =
     (if operation x = ''delete'' then Delete (uid, collection x, item_id x)
      else SetMerge (uid, collection x, item_id x) (stamp (data x)))"

text \<open>
  An item that the SDK accepts: its operation is one of the three and neither the
  reference nor the payload makes the SDK throw.
\<close>

definition accepted :: "firestore \<Rightarrow> string \<Rightarrow> item \<Rightarrow> bool" where
  "accepted fs uid x \<longleftrightarrow>
     (operation x = ''create'' \<or> operation x = ''update'' \<or> operation x = ''delete'') \<and>
     ref_ok fs uid (collection x) (item_id x) \<and>
     (operation x \<noteq> ''delete'' \<longrightarrow> data_ok fs (stamp (data x)))"

text \<open>
  The events of an execution in which the remote store never fails: \<open>enqueue\<close> of an
  accepted item, a call of \<open>processQueue\<close>, and the resumption of a drain loop whose
  \<open>commit()\<close>, if it waits for one, has resolved.
\<close>

fun unfailing :: "firestore \<Rightarrow> string \<Rightarrow> event \<Rightarrow> bool" where
  "unfailing fs uid (Enqueue op coll d idopt gen now) =
     accepted fs uid (new_item op coll d idopt gen now)"
| "unfailing fs uid Drain = True"
| "unfailing fs uid (Resume k ok now) = ok"
| "unfailing fs uid Clear = False"
| "unfailing fs uid (SetSession u db) = False"

definition bump :: "item \<Rightarrow> item" where
  "bump x = x\<lparr>attempts := attempts x + 1\<rparr>"

definition day_ms :: int where
  "day_ms = 24 * (60 * 60 * 1000)"

text \<open>
  A chart whose three lists have the same length, at most 10; and the chart as
  \<open>checkAndAutoResetFirestoreStats\<close> leaves it at time \<open>now\<close>.
\<close>

definition aligned :: "chart \<Rightarrow> bool" where
  "aligned c \<longleftrightarrow> length (labels c) \<le> 10 \<and> length (reads_data c) = length (labels c) \<and>
     length (writes_data c) = length (labels c)"

definition after_reset_check :: "int \<Rightarrow> world \<Rightarrow> chart \<Rightarrow> chart" where
  "after_reset_check now w c =
     (if day_ms \<le> now - lastReset (firestoreStats w)
      then c\<lparr>labels := [], reads_data := [], writes_data := []\<rparr> else c)"

text \<open>
  What the loop of \<open>processBatch\<close> does with a batch \<open>b\<close> for user \<open>uid\<close>, when
  \<open>retryAttempts\<close> is \<open>r\<close>: the items it pushes onto the queue, the batch as it leaves
  it, the writes it adds and the errors it logs.
\<close>

definition retried :: "firestore \<Rightarrow> string \<Rightarrow> nat \<Rightarrow> item \<Rightarrow> bool" where
  "retried fs uid r x \<longleftrightarrow> build_write fs uid x = Threw \<and> attempts x < r"

definition requeued :: "firestore \<Rightarrow> string \<Rightarrow> nat \<Rightarrow> item list \<Rightarrow> item list" where
  "requeued fs uid r b = map bump (filter (retried fs uid r) b)"

definition after_loop :: "firestore \<Rightarrow> string \<Rightarrow> nat \<Rightarrow> item list \<Rightarrow> item list" where
  "after_loop fs uid r b = map (\<lambda>x. if retried fs uid r x then bump x else x) b"

definition writes_of :: "firestore \<Rightarrow> string \<Rightarrow> item list \<Rightarrow> fwrite list" where
  "writes_of fs uid b =
     concat (map (\<lambda>x. case build_write fs uid x of Added wr \<Rightarrow> [wr] | _ \<Rightarrow> []) b)"

definition errors_of :: "firestore \<Rightarrow> string \<Rightarrow> item list \<Rightarrow> log_event list" where
  "errors_of fs uid b =
     map (\<lambda>x. ErrProcessing (operation x)) (filter (\<lambda>x. build_write fs uid x = Threw) b)"

text \<open>
  Two instances of the SDK for concrete executions: one that accepts every reference and
  payload, and one that throws on an empty collection name. \<open>signed_in\<close> sets the two
  globals of a session.
\<close>

definition permissive :: firestore where
  "permissive = \<lparr>ref_ok = (\<lambda>uid coll i. True), data_ok = (\<lambda>d. True)\<rparr>"

definition strict :: firestore where
  "strict = \<lparr>ref_ok = (\<lambda>uid coll i. coll \<noteq> []), data_ok = (\<lambda>d. True)\<rparr>"

definition signed_in :: "string \<Rightarrow> world \<Rightarrow> world" where
  "signed_in uid w = w\<lparr>currentUser := Some uid, firebaseDB := True\<rparr>"

text \<open>
  Concrete data for the instances below: an item that \<open>strict\<close> rejects (its collection
  name is empty), one that it accepts, a signed-in state, and the state reached when
  both items have been enqueued and the drain loop waits for the commit of the batch
  that holds them.
\<close>

definition ex_bad :: item where
  "ex_bad = new_item ''create'' [] [] None ''g1'' 1"

definition ex_good :: item where
  "ex_good = new_item ''delete'' ''invoices'' [] (Some ''d7'') ''g2'' 2"

definition ex_world :: world where
  "ex_world = signed_in ''u'' (init 0)"

definition ex_mixed :: world where
  "ex_mixed = run strict
     [Enqueue ''create'' [] [] None ''g1'' 1,
      Enqueue ''delete'' ''invoices'' [] (Some ''d7'') ''g2'' 2,
      Resume 0 True 3, Resume 0 True 4] ex_world"

text \<open>
  The invariant of an execution in which nothing fails, for user \<open>uid\<close> and the items
  \<open>E\<close> enqueued so far: there is a session, the queue holds accepted items, at most one
  drain loop is suspended, \<open>processing\<close> is set exactly when there is one, and the
  writes committed so far, followed by those of the batch in flight and of the queue,
  are the writes of \<open>E\<close> in order. \<open>remaining\<close> bounds the number of resumptions the
  drain loop still needs.
\<close>

definition healthy :: "firestore \<Rightarrow> string \<Rightarrow> item list \<Rightarrow> world \<Rightarrow> bool" where
  "healthy fs uid E w \<longleftrightarrow>
     firebaseDB w \<and> currentUser w = Some uid \<and> 0 < batchSize w \<and>
     list_all (accepted fs uid) (queue w) \<and>
     (case drains w of
        [] \<Rightarrow> \<not> processing w \<and> queue w = [] \<and> concat (remote w) = map (item_write uid) E
      | [AwaitCommit b ops n] \<Rightarrow>
          processing w \<and> ops = map (item_write uid) b \<and>
          concat (remote w) @ ops @ map (item_write uid) (queue w) = map (item_write uid) E
      | [t] \<Rightarrow>
          processing w \<and>
          concat (remote w) @ map (item_write uid) (queue w) = map (item_write uid) E
      | _ \<Rightarrow> False)"

definition remaining :: "world \<Rightarrow> nat" where
  "remaining w =
     (case drains w of
        [] \<Rightarrow> 0
      | t # ts \<Rightarrow> 3 * length (queue w) +
          (case t of AwaitCommit b ops n \<Rightarrow> 3 | AwaitBatch \<Rightarrow> 2 | Sleeping \<Rightarrow> 1))"

text \<open>An execution that enqueues two items while the drain loop runs.\<close>

definition ex_events :: "event list" where
  "ex_events =
     [Enqueue ''create'' ''invoices'' [(''amount'', ''100'')] None ''g1'' 1,
      Drain,
      Enqueue ''delete'' ''invoices'' [] (Some ''d7'') ''g2'' 2,
      Resume 0 True 3]"

text \<open>
  The flag \<open>processing\<close> stands for the drain loop: set exactly when one loop is
  suspended, with no loop suspended when it is clear.
\<close>

definition one_drain :: "world \<Rightarrow> bool" where
  "one_drain w \<longleftrightarrow> (if processing w then length (drains w) = 1 else drains w = [])"

text \<open>
  The chart with one more point, holding the last 10: what \<open>updateFirestoreChart\<close>
  makes of an aligned chart.
\<close>

definition last10 :: "'a list \<Rightarrow> 'a list" where
  "last10 xs = drop (length xs - 10) xs"

definition with_point :: "int \<Rightarrow> int \<Rightarrow> int \<Rightarrow> chart \<Rightarrow> chart" where
  "with_point now r wr c =
     c\<lparr>labels := last10 (labels c @ [now]), reads_data := last10 (reads_data c @ [r]),
       writes_data := last10 (writes_data c @ [wr])\<rparr>"

section \<open>Status snapshots\<close>

text \<open>
  C10: in every snapshot returned by \<open>getStatus\<close>, \<open>pending\<close> equals \<open>queueLength\<close>,
  and both are the current length of the queue.
\<close>

theorem getStatus_pending_eq_queueLength:
  "pending (getStatus w) = queueLength (getStatus w) \<and> queueLength (getStatus w) = length (queue w)"
  by (simp add: getStatus_def)

section \<open>Usage tracker: frame and reset lemmas\<close>

lemma reset_due_iff:
  "(24 \<le> hoursSinceReset now w) = (day_ms \<le> now - lastReset (firestoreStats w))"
proof -
  define d where "d = now - lastReset (firestoreStats w)"
  have "(24 \<le> hoursSinceReset now w) = (24 \<le> (of_int d :: rat) / (1000 * 60 * 60))"
    unfolding hoursSinceReset_def d_def ..
  also have "\<dots> = ((of_int day_ms :: rat) \<le> of_int d)"
    by (simp add: day_ms_def le_divide_eq)
  also have "\<dots> = (day_ms \<le> d)"
    by (rule of_int_le_iff)
  finally show ?thesis
    unfolding d_def .
qed

lemma stats_saveFirestoreStats [simp]:
  "firestoreStats (saveFirestoreStats w) = firestoreStats w"
  by (simp add: saveFirestoreStats_def)

lemma stats_updateFirestoreChart [simp]:
  "firestoreStats (updateFirestoreChart now w) = firestoreStats w"
  by (simp add: updateFirestoreChart_def Let_def split: option.splits)

lemma stats_updateFirestoreDisplay [simp]:
  "firestoreStats (updateFirestoreDisplay now w) = firestoreStats w"
  by (simp add: updateFirestoreDisplay_def)

lemma stats_checkAndAutoReset:
  "firestoreStats (checkAndAutoResetFirestoreStats now w) =
     (if day_ms \<le> now - lastReset (firestoreStats w)
      then \<lparr>reads = 0, writes = 0, history = [], lastReset = now\<rparr>
      else firestoreStats w)"
  by (simp add: checkAndAutoResetFirestoreStats_def reset_due_iff Let_def split: option.splits)

lemma stats_trackFirestoreRead:
  "firestoreStats (trackFirestoreRead n now w) =
     (let s = firestoreStats (checkAndAutoResetFirestoreStats now w)
      in s\<lparr>reads := reads s + n\<rparr>)"
  by (simp add: trackFirestoreRead_def Let_def)

lemma stats_trackFirestoreWrite:
  "firestoreStats (trackFirestoreWrite n now w) =
     (let s = firestoreStats (checkAndAutoResetFirestoreStats now w)
      in s\<lparr>writes := writes s + n\<rparr>)"
  by (simp add: trackFirestoreWrite_def Let_def)

text \<open>
  C7: when at least 24 hours (\<open>day_ms\<close> milliseconds) have passed since \<open>lastReset\<close>,
  a call of \<open>trackFirestoreRead\<close> or \<open>trackFirestoreWrite\<close> leaves exactly the recorded
  count in its own counter, zero in the other, an empty history and \<open>lastReset\<close> at
  the time of the call: the reset comes before the increment. In particular, with a
  clock that is not behind \<open>lastReset\<close>, recording 3 reads and 5 writes and, 25 hours
  later, 1 read gives \<open>reads = 1\<close> and \<open>writes = 0\<close>.
\<close>

theorem track_auto_reset:
  "(day_ms \<le> now - lastReset (firestoreStats w) \<longrightarrow>
      firestoreStats (trackFirestoreRead n now w) =
        \<lparr>reads = n, writes = 0, history = [], lastReset = now\<rparr> \<and>
      firestoreStats (trackFirestoreWrite n now w) =
        \<lparr>reads = 0, writes = n, history = [], lastReset = now\<rparr>) \<and>
   (lastReset (firestoreStats w) \<le> t \<longrightarrow>
      (let w' = trackFirestoreRead 1 (t + 25 * (60 * 60 * 1000))
                  (trackFirestoreWrite 5 t (trackFirestoreRead 3 t w))
       in reads (firestoreStats w') = 1 \<and> writes (firestoreStats w') = 0))"
  by (simp add: stats_trackFirestoreRead stats_trackFirestoreWrite stats_checkAndAutoReset
      Let_def day_ms_def)

theorem track_auto_reset_witness:
  "day_ms \<le> 90000000 - lastReset (firestoreStats (init 0)) \<and>
   firestoreStats (trackFirestoreRead 1 90000000 (init 0)) =
     \<lparr>reads = 1, writes = 0, history = [], lastReset = 90000000\<rparr> \<and>
   firestoreStats (trackFirestoreWrite 1 90000000 (init 0)) =
     \<lparr>reads = 0, writes = 1, history = [], lastReset = 90000000\<rparr> \<and>
   lastReset (firestoreStats (init 0)) \<le> 0 \<and>
   (let w' = trackFirestoreRead 1 (0 + 25 * (60 * 60 * 1000))
               (trackFirestoreWrite 5 0 (trackFirestoreRead 3 0 (init 0)))
    in reads (firestoreStats w') = 1 \<and> writes (firestoreStats w') = 0)"
  using track_auto_reset [of 90000000 "init 0" 1 0]
  by (simp add: init_def day_ms_def)

section \<open>Usage tracker: chart window and persisted record\<close>

lemma chart_saveFirestoreStats [simp]:
  "firestoreUsageChart (saveFirestoreStats w) = firestoreUsageChart w"
  by (simp add: saveFirestoreStats_def)

lemma storage_updateFirestoreDisplay [simp]:
  "localStorage (updateFirestoreDisplay now w) = localStorage w"
  by (simp add: updateFirestoreDisplay_def updateFirestoreChart_def Let_def split: option.splits)

lemma storage_ok_checkAndAutoReset [simp]:
  "storage_ok (checkAndAutoResetFirestoreStats now w) = storage_ok w"
  by (simp add: checkAndAutoResetFirestoreStats_def updateFirestoreDisplay_def
      updateFirestoreChart_def saveFirestoreStats_def Let_def split: option.splits)

lemma chart_checkAndAutoReset:
  "firestoreUsageChart (checkAndAutoResetFirestoreStats now w) =
     (if day_ms \<le> now - lastReset (firestoreStats w)
      then map_option (\<lambda>c. c\<lparr>labels := [], reads_data := [], writes_data := []\<rparr>)
             (firestoreUsageChart w)
      else firestoreUsageChart w)"
  by (simp add: checkAndAutoResetFirestoreStats_def reset_due_iff updateFirestoreDisplay_def
      updateFirestoreChart_def Let_def split: option.splits)

lemma last10_snoc:
  "length xs \<le> 10 \<Longrightarrow>
   last10 (xs @ [x]) = (if length xs = 10 then tl (xs @ [x]) else xs @ [x])"
  by (cases xs) (auto simp: last10_def drop_Suc)

lemma aligned_with_point: "aligned c \<Longrightarrow> aligned (with_point now r wr c)"
  by (auto simp: aligned_def with_point_def last10_def)

lemma length_with_point:
  "aligned c \<Longrightarrow> length (labels (with_point now r wr c)) = min 10 (length (labels c) + 1)"
  by (auto simp: aligned_def with_point_def last10_def)

lemma chart_updateFirestoreDisplay:
  assumes "firestoreUsageChart w = Some c" and "aligned c"
  shows "firestoreUsageChart (updateFirestoreDisplay now w) =
           Some (if (reads (firestoreStats w) + writes (firestoreStats w)) mod 10 = 0
                 then with_point now (reads (firestoreStats w)) (writes (firestoreStats w)) c
                 else c)"
  using assms
  by (simp add: updateFirestoreDisplay_def updateFirestoreChart_def Let_def aligned_def
      with_point_def last10_snoc)

lemma no_chart_updateFirestoreDisplay:
  "firestoreUsageChart w = None \<Longrightarrow> firestoreUsageChart (updateFirestoreDisplay now w) = None"
  by (simp add: updateFirestoreDisplay_def updateFirestoreChart_def)

lemma storage_trackFirestoreRead:
  "storage_ok w \<Longrightarrow>
   localStorage (trackFirestoreRead n now w) = Some (firestoreStats (trackFirestoreRead n now w))"
  by (simp add: trackFirestoreRead_def Let_def saveFirestoreStats_def)

lemma storage_trackFirestoreWrite:
  "storage_ok w \<Longrightarrow>
   localStorage (trackFirestoreWrite n now w) = Some (firestoreStats (trackFirestoreWrite n now w))"
  by (simp add: trackFirestoreWrite_def Let_def saveFirestoreStats_def)

lemma history_track:
  "history (firestoreStats (trackFirestoreRead n now w)) =
     (if day_ms \<le> now - lastReset (firestoreStats w) then [] else history (firestoreStats w))"
  "history (firestoreStats (trackFirestoreWrite n now w)) =
     (if day_ms \<le> now - lastReset (firestoreStats w) then [] else history (firestoreStats w))"
  by (simp_all add: stats_trackFirestoreRead stats_trackFirestoreWrite stats_checkAndAutoReset
      Let_def)

lemma aligned_after_reset_check: "aligned c \<Longrightarrow> aligned (after_reset_check now w c)"
  by (simp add: after_reset_check_def aligned_def)

lemma length_after_reset_check:
  "length (labels (after_reset_check now w c)) \<le> length (labels c)"
  by (simp add: after_reset_check_def)

lemma chart_track:
  assumes "firestoreUsageChart w = Some c" and "aligned c"
    and "w' = trackFirestoreRead n now w \<or> w' = trackFirestoreWrite n now w"
  shows "firestoreUsageChart w' =
           Some (if (reads (firestoreStats w') + writes (firestoreStats w')) mod 10 = 0
                 then with_point now (reads (firestoreStats w')) (writes (firestoreStats w'))
                        (after_reset_check now w c)
                 else after_reset_check now w c)"
proof -
  let ?w1 = "checkAndAutoResetFirestoreStats now w"
  have c1: "firestoreUsageChart ?w1 = Some (after_reset_check now w c)"
    using assms(1) by (simp add: chart_checkAndAutoReset after_reset_check_def)
  have al: "aligned (after_reset_check now w c)"
    using assms(2) by (rule aligned_after_reset_check)
  from assms(3) show ?thesis
  proof
    assume w': "w' = trackFirestoreRead n now w"
    let ?w2 = "saveFirestoreStats (?w1\<lparr>firestoreStats :=
        (firestoreStats ?w1)\<lparr>reads := reads (firestoreStats ?w1) + n\<rparr>\<rparr>)"
    have "firestoreUsageChart ?w2 = Some (after_reset_check now w c)"
      using c1 by simp
    from chart_updateFirestoreDisplay [OF this al, of now]
    show ?thesis
      unfolding w' trackFirestoreRead_def Let_def by simp
  next
    assume w': "w' = trackFirestoreWrite n now w"
    let ?w2 = "saveFirestoreStats (?w1\<lparr>firestoreStats :=
        (firestoreStats ?w1)\<lparr>writes := writes (firestoreStats ?w1) + n\<rparr>\<rparr>)"
    have "firestoreUsageChart ?w2 = Some (after_reset_check now w c)"
      using c1 by simp
    from chart_updateFirestoreDisplay [OF this al, of now]
    show ?thesis
      unfolding w' trackFirestoreWrite_def Let_def by simp
  qed
qed

lemma no_chart_track:
  assumes "firestoreUsageChart w = None"
    and "w' = trackFirestoreRead n now w \<or> w' = trackFirestoreWrite n now w"
  shows "firestoreUsageChart w' = None"
proof -
  have "firestoreUsageChart (checkAndAutoResetFirestoreStats now w) = None"
    using assms(1) by (simp add: chart_checkAndAutoReset)
  with assms(2) show ?thesis
    by (auto simp: trackFirestoreRead_def trackFirestoreWrite_def Let_def
        intro!: no_chart_updateFirestoreDisplay)
qed

text \<open>
  C9 (as amended): the samples are kept in the chart in memory, not in the persisted
  record. After a call of \<open>trackFirestoreRead\<close> or \<open>trackFirestoreWrite\<close> the history
  of the stats is empty if the call reset them and is otherwise what it was: nothing
  is ever appended to it. The record written to \<open>localStorage\<close> (when \<open>setItem\<close>
  succeeds) is the current stats record. Without a chart no sample is taken. With a
  chart of at most 10 aligned points: when \<open>reads + writes\<close> is divisible by 10 after
  the call, the chart is the one left by the reset check with the point
  \<open>(now, reads, writes)\<close> appended and only the last 10 points kept; otherwise it is
  the chart left by the reset check, with no point appended. Either way it is again
  aligned.
\<close>

theorem samples_kept_in_chart_only:
  assumes "w' = trackFirestoreRead n now w \<or> w' = trackFirestoreWrite n now w"
  shows "history (firestoreStats w') =
           (if day_ms \<le> now - lastReset (firestoreStats w) then []
            else history (firestoreStats w)) \<and>
         (storage_ok w \<longrightarrow> localStorage w' = Some (firestoreStats w')) \<and>
         (firestoreUsageChart w = None \<longrightarrow> firestoreUsageChart w' = None) \<and>
         (\<forall>c. firestoreUsageChart w = Some c \<and> aligned c \<longrightarrow>
            (\<exists>c'. firestoreUsageChart w' = Some c' \<and> aligned c' \<and>
               c' = (if (reads (firestoreStats w') + writes (firestoreStats w')) mod 10 = 0
                     then with_point now (reads (firestoreStats w'))
                            (writes (firestoreStats w')) (after_reset_check now w c)
                     else after_reset_check now w c)))"
proof (intro conjI impI allI)
  show "history (firestoreStats w') =
          (if day_ms \<le> now - lastReset (firestoreStats w) then []
           else history (firestoreStats w))"
    using assms by (auto simp: history_track)
next
  assume "storage_ok w"
  with assms show "localStorage w' = Some (firestoreStats w')"
    by (auto simp: storage_trackFirestoreRead storage_trackFirestoreWrite)
next
  assume "firestoreUsageChart w = None"
  then show "firestoreUsageChart w' = None"
    using assms by (rule no_chart_track)
next
  fix c
  assume c: "firestoreUsageChart w = Some c \<and> aligned c"
  then have "aligned (after_reset_check now w c)"
    by (simp add: aligned_after_reset_check)
  then have "aligned (if (reads (firestoreStats w') + writes (firestoreStats w')) mod 10 = 0
                     then with_point now (reads (firestoreStats w'))
                            (writes (firestoreStats w')) (after_reset_check now w c)
                     else after_reset_check now w c)"
    by (simp add: aligned_with_point)
  with chart_track [of w c w' n now] c assms
  show "\<exists>c'. firestoreUsageChart w' = Some c' \<and> aligned c' \<and>
               c' = (if (reads (firestoreStats w') + writes (firestoreStats w')) mod 10 = 0
                     then with_point now (reads (firestoreStats w'))
                            (writes (firestoreStats w')) (after_reset_check now w c)
                     else after_reset_check now w c)"
    by simp
qed

theorem samples_kept_in_chart_only_witness:
  "storage_ok ((init 0)\<lparr>firestoreUsageChart :=
                 Some \<lparr>labels = [], reads_data = [], writes_data = []\<rparr>\<rparr>) \<and>
   aligned \<lparr>labels = [], reads_data = [], writes_data = []\<rparr> \<and>
   history (firestoreStats (trackFirestoreRead 10 5
     ((init 0)\<lparr>firestoreUsageChart :=
                 Some \<lparr>labels = [], reads_data = [], writes_data = []\<rparr>\<rparr>))) = [] \<and>
   localStorage (trackFirestoreRead 10 5
     ((init 0)\<lparr>firestoreUsageChart :=
                 Some \<lparr>labels = [], reads_data = [], writes_data = []\<rparr>\<rparr>)) =
     Some (firestoreStats (trackFirestoreRead 10 5
       ((init 0)\<lparr>firestoreUsageChart :=
                   Some \<lparr>labels = [], reads_data = [], writes_data = []\<rparr>\<rparr>))) \<and>
   (\<exists>c'. firestoreUsageChart (trackFirestoreRead 10 5
       ((init 0)\<lparr>firestoreUsageChart :=
                   Some \<lparr>labels = [], reads_data = [], writes_data = []\<rparr>\<rparr>)) = Some c' \<and>
      aligned c')"
proof -
  let ?c = "\<lparr>labels = [], reads_data = [], writes_data = []\<rparr>"
  let ?w = "(init 0)\<lparr>firestoreUsageChart := Some ?c\<rparr>"
  have s: "storage_ok ?w" and a: "aligned ?c" and c: "firestoreUsageChart ?w = Some ?c"
    and h: "history (firestoreStats ?w) = []" and d: "\<not> day_ms \<le> 5 - lastReset (firestoreStats ?w)"
    by (simp_all add: init_def aligned_def day_ms_def)
  have "trackFirestoreRead 10 5 ?w = trackFirestoreRead 10 5 ?w \<or>
        trackFirestoreRead 10 5 ?w = trackFirestoreWrite 10 5 ?w"
    by simp
  note T = samples_kept_in_chart_only [OF this]
  from T h d have "history (firestoreStats (trackFirestoreRead 10 5 ?w)) = []"
    by simp
  moreover from T s
  have "localStorage (trackFirestoreRead 10 5 ?w) =
      Some (firestoreStats (trackFirestoreRead 10 5 ?w))"
    by blast
  moreover from T c a
  have "\<exists>c'. firestoreUsageChart (trackFirestoreRead 10 5 ?w) = Some c' \<and> aligned c'"
    by blast
  ultimately show ?thesis
    using s a by blast
qed

text \<open>
  C9 as stated fails: after 10 reads recorded with a chart present, the sample is in
  the chart and the persisted record has an empty history.
\<close>

theorem persisted_history_counterexample:
  "(let w = trackFirestoreRead 10 5
              ((init 0)\<lparr>firestoreUsageChart :=
                         Some \<lparr>labels = [], reads_data = [], writes_data = []\<rparr>\<rparr>)
    in localStorage w = Some \<lparr>reads = 10, writes = 0, history = [], lastReset = 0\<rparr> \<and>
       firestoreUsageChart w = Some \<lparr>labels = [5], reads_data = [10], writes_data = [0]\<rparr>)"
  by (simp add: trackFirestoreRead_def checkAndAutoResetFirestoreStats_def reset_due_iff
      day_ms_def init_def saveFirestoreStats_def updateFirestoreDisplay_def
      updateFirestoreChart_def Let_def)

section \<open>The loop of processBatch\<close>

lemma build_batch_eq:
  "build_batch fs uid b w =
     (w\<lparr>queue := queue w @ requeued fs uid (retryAttempts w) b,
        console := console w @ errors_of fs uid b\<rparr>,
      after_loop fs uid (retryAttempts w) b, writes_of fs uid b,
      length (writes_of fs uid b))"
proof (induction b arbitrary: w)
  case Nil
  show ?case
    by (simp add: requeued_def errors_of_def after_loop_def writes_of_def)
next
  case (Cons x xs)
  show ?case
  proof (cases "build_write fs uid x")
    case (Added wr)
    then show ?thesis
      by (simp add: Cons.IH requeued_def errors_of_def after_loop_def writes_of_def retried_def)
  next
    case Skipped
    then show ?thesis
      by (simp add: Cons.IH requeued_def errors_of_def after_loop_def writes_of_def retried_def)
  next
    case Threw
    then show ?thesis
      by (simp add: Cons.IH requeued_def errors_of_def after_loop_def writes_of_def retried_def
          bump_def Let_def)
  qed
qed

lemma processBatch_session:
  assumes "firebaseDB w" and "currentUser w = Some uid"
  shows "processBatch fs b w =
     (w\<lparr>queue := queue w @ requeued fs uid (retryAttempts w) b,
        console := console w @ errors_of fs uid b\<rparr>,
      if writes_of fs uid b = [] then AwaitBatch
      else AwaitCommit (after_loop fs uid (retryAttempts w) b) (writes_of fs uid b)
             (length (writes_of fs uid b)))"
  using assms by (simp add: processBatch_def build_batch_eq)

lemma processBatch_no_session:
  assumes "\<not> firebaseDB w \<or> currentUser w = None"
  shows "processBatch fs b w = (w\<lparr>queue := queue w @ b\<rparr>, AwaitBatch)"
  using assms by (auto simp: processBatch_def split: option.splits bool.splits)

section \<open>Batches without a session\<close>

text \<open>
  C4 (as amended): when \<open>firebaseDB\<close> or \<open>currentUser\<close> is missing, \<open>processBatch\<close>
  pushes the batch, every item unchanged, onto the tail of the queue and returns
  without building a write or calling \<open>commit()\<close>; nothing else of the state changes.
  For a batch taken by the drain loop the queue becomes the items that were left
  followed by the batch.
\<close>

theorem batch_without_session_goes_to_tail:
  assumes "\<not> firebaseDB w \<or> currentUser w = None"
  shows "processBatch fs b w = (w\<lparr>queue := queue w @ b\<rparr>, AwaitBatch) \<and>
         (queue w \<noteq> [] \<longrightarrow>
            loop_head fs w =
              (w\<lparr>queue := drop (batchSize w) (queue w) @ take (batchSize w) (queue w)\<rparr>,
               Some AwaitBatch))"
  using assms by (auto simp: loop_head_def Let_def processBatch_no_session)

theorem batch_without_session_goes_to_tail_witness:
  "\<not> firebaseDB ((init 0)\<lparr>queue := [new_item ''create'' ''invoices'' [] None ''g'' 1]\<rparr>) \<and>
   queue ((init 0)\<lparr>queue := [new_item ''create'' ''invoices'' [] None ''g'' 1]\<rparr>) \<noteq> [] \<and>
   loop_head permissive ((init 0)\<lparr>queue := [new_item ''create'' ''invoices'' [] None ''g'' 1]\<rparr>) =
     ((init 0)\<lparr>queue := [new_item ''create'' ''invoices'' [] None ''g'' 1]\<rparr>, Some AwaitBatch)"
proof -
  let ?w = "(init 0)\<lparr>queue := [new_item ''create'' ''invoices'' [] None ''g'' 1]\<rparr>"
  have n: "\<not> firebaseDB ?w" and q: "queue ?w \<noteq> []" and b: "batchSize ?w = 50"
    by (simp_all add: init_def)
  from n have "\<not> firebaseDB ?w \<or> currentUser ?w = None" ..
  from batch_without_session_goes_to_tail [OF this, of permissive "[]"] q
  have "loop_head permissive ?w =
      (?w\<lparr>queue := drop (batchSize ?w) (queue ?w) @ take (batchSize ?w) (queue ?w)\<rparr>,
       Some AwaitBatch)"
    by blast
  with n q b show ?thesis
    by simp
qed

text \<open>
  C4 as stated fails: 51 items are enqueued without a session and the drain loop takes
  its second batch, the first 50 of them. The batch is pushed back behind the 51st
  item, which is now the head of the queue.
\<close>

theorem batch_pushed_to_head_counterexample:
  "queue (run permissive
            (map (\<lambda>n. Enqueue ''update'' ''c'' [] (Some (replicate (Suc n) CHR ''i'')) ''g'' 0)
               [0..<51] @ [Resume 0 True 0, Resume 0 True 0])
            (init 0)) =
     new_item ''update'' ''c'' [] (Some (replicate 51 CHR ''i'')) ''g'' 0 #
     map (\<lambda>n. new_item ''update'' ''c'' [] (Some (replicate (Suc n) CHR ''i'')) ''g'' 0) [0..<50]"
  by code_simp

section \<open>Failed commits and retries\<close>

lemma item_id_bump [simp]: "item_id (bump x) = item_id x"
  by (simp add: bump_def)

lemma bump_restore [simp]: "(bump x)\<lparr>attempts := attempts x\<rparr> = x"
  by (simp add: bump_def)

lemma length_after_loop [simp]: "length (after_loop fs uid r b) = length b"
  by (simp add: after_loop_def)

lemma item_id_after_loop [simp]: "map item_id (after_loop fs uid r b) = map item_id b"
  by (simp add: after_loop_def comp_def)

lemma bump_in_requeued_or_after_loop:
  assumes "x \<in> set b"
  shows "bump x \<in> set (requeued fs uid r b @ map bump (after_loop fs uid r b))"
proof (cases "retried fs uid r x")
  case True
  with assms have "bump x \<in> set (requeued fs uid r b)"
    by (simp add: requeued_def)
  then show ?thesis by simp
next
  case False
  with assms have "x \<in> set (after_loop fs uid r b)"
    by (force simp: after_loop_def)
  then show ?thesis by simp
qed

lemma after_loop_unchanged:
  "\<forall>x\<in>set b. \<not> retried fs uid r x \<Longrightarrow> after_loop fs uid r b = b"
  by (induction b) (simp_all add: after_loop_def)

lemma queue_processBatch_committed_failed:
  "queue (processBatch_committed False now b ops n w) = queue w @ map bump b"
  by (simp add: processBatch_committed_def bump_def Let_def)

lemma resume_failed_commit:
  assumes "k < length (drains w)" and "drains w ! k = AwaitCommit b ops n"
  shows "resume fs k False now w =
           w\<lparr>queue := queue w @ map bump b, console := console w @ [BatchCommitFailed],
              drains := (drains w)[k := AwaitBatch]\<rparr>"
proof -
  have "(\<lambda>x. x\<lparr>attempts := Suc (attempts x)\<rparr>) = bump"
    by (rule ext) (simp add: bump_def)
  with assms show ?thesis
    by (simp add: resume_def resume_task_def processBatch_committed_def Let_def)
qed

text \<open>
  C5: when the \<open>commit()\<close> that drain loop \<open>k\<close> waits for is rejected, nothing is
  committed; every item of the batch, as the loop of \<open>processBatch\<close> left it, is pushed
  onto the tail of the queue with \<open>attempts + 1\<close>, whatever its \<open>attempts\<close> is (no
  bound is tested). For a batch \<open>b0\<close> taken with a session, the items that this
  batch has put on the queue then include, for every item of \<open>b0\<close>, that item with
  \<open>attempts + 1\<close>; and when the loop retried no item, they are exactly the items of
  \<open>b0\<close> with \<open>attempts + 1\<close>.
\<close>

theorem failed_commit_requeues_batch:
  assumes "k < length (drains w)" and "drains w ! k = AwaitCommit b ops n"
  shows "queue (resume fs k False now w) = queue w @ map bump b \<and>
         map attempts (map bump b) = map (\<lambda>x. attempts x + 1) b \<and>
         remote (resume fs k False now w) = remote w \<and>
         drains (resume fs k False now w) = (drains w)[k := AwaitBatch] \<and>
         (\<forall>w0 uid b0 w1.
            firebaseDB w0 \<and> currentUser w0 = Some uid \<and>
            processBatch fs b0 w0 = (w1, AwaitCommit b ops n) \<longrightarrow>
            (\<exists>ys. queue w1 = queue w0 @ ys \<and>
                  (\<forall>x\<in>set b0. bump x \<in> set (ys @ map bump b)) \<and>
                  ((\<forall>x\<in>set b0. \<not> retried fs uid (retryAttempts w0) x) \<longrightarrow>
                     ys = [] \<and> b = b0)))"
proof (intro conjI allI impI)
  note r = resume_failed_commit [OF assms, of fs now]
  show "queue (resume fs k False now w) = queue w @ map bump b"
    by (simp add: r)
  show "map attempts (map bump b) = map (\<lambda>x. attempts x + 1) b"
    by (simp add: bump_def comp_def)
  show "remote (resume fs k False now w) = remote w"
    by (simp add: r)
  show "drains (resume fs k False now w) = (drains w)[k := AwaitBatch]"
    by (simp add: r)
next
  fix w0 uid b0 w1
  assume a: "firebaseDB w0 \<and> currentUser w0 = Some uid \<and>
    processBatch fs b0 w0 = (w1, AwaitCommit b ops n)"
  let ?r = "retryAttempts w0"
  from a have s: "firebaseDB w0" "currentUser w0 = Some uid"
    by simp_all
  have pb: "processBatch fs b0 w0 =
     (w0\<lparr>queue := queue w0 @ requeued fs uid ?r b0,
         console := console w0 @ errors_of fs uid b0\<rparr>,
      if writes_of fs uid b0 = [] then AwaitBatch
      else AwaitCommit (after_loop fs uid ?r b0) (writes_of fs uid b0)
             (length (writes_of fs uid b0)))"
    by (rule processBatch_session [OF s])
  with a have w1: "queue w1 = queue w0 @ requeued fs uid ?r b0"
    and b: "b = after_loop fs uid ?r b0"
    by (auto split: if_splits)
  have "\<forall>x\<in>set b0. bump x \<in> set (requeued fs uid ?r b0 @ map bump b)"
    unfolding b by (blast intro: bump_in_requeued_or_after_loop)
  moreover have "(\<forall>x\<in>set b0. \<not> retried fs uid ?r x) \<longrightarrow> requeued fs uid ?r b0 = [] \<and> b = b0"
    unfolding b by (auto simp: requeued_def filter_empty_conv after_loop_unchanged)
  ultimately show "\<exists>ys. queue w1 = queue w0 @ ys \<and>
                  (\<forall>x\<in>set b0. bump x \<in> set (ys @ map bump b)) \<and>
                  ((\<forall>x\<in>set b0. \<not> retried fs uid (retryAttempts w0) x) \<longrightarrow>
                     ys = [] \<and> b = b0)"
    using w1 by blast
qed

theorem failed_commit_requeues_batch_witness:
  "0 < length (drains ex_mixed) \<and>
   drains ex_mixed ! 0 =
     AwaitCommit [bump (bump ex_bad), ex_good] [Delete (''u'', ''invoices'', ''d7'')] 1 \<and>
   queue (resume strict 0 False 9 ex_mixed) =
     [bump (bump ex_bad), bump (bump (bump ex_bad)), bump ex_good] \<and>
   remote (resume strict 0 False 9 ex_mixed) = [] \<and>
   firebaseDB ex_world \<and> currentUser ex_world = Some ''u'' \<and>
   processBatch strict [bump ex_bad, ex_good] ex_world =
     (ex_world\<lparr>queue := [bump (bump ex_bad)], console := [ErrProcessing ''create'']\<rparr>,
      AwaitCommit [bump (bump ex_bad), ex_good] [Delete (''u'', ''invoices'', ''d7'')] 1) \<and>
   bump ex_good \<in> set (queue (resume strict 0 False 9 ex_mixed))"
proof -
  have h1: "0 < length (drains ex_mixed)"
    by code_simp
  have h2: "drains ex_mixed ! 0 =
      AwaitCommit [bump (bump ex_bad), ex_good] [Delete (''u'', ''invoices'', ''d7'')] 1"
    by code_simp
  have q: "queue ex_mixed = [bump (bump ex_bad)]" and r: "remote ex_mixed = []"
    by code_simp+
  have s: "firebaseDB ex_world" "currentUser ex_world = Some ''u''"
    by code_simp+
  have pb: "processBatch strict [bump ex_bad, ex_good] ex_world =
      (ex_world\<lparr>queue := [bump (bump ex_bad)], console := [ErrProcessing ''create'']\<rparr>,
       AwaitCommit [bump (bump ex_bad), ex_good] [Delete (''u'', ''invoices'', ''d7'')] 1)"
    by code_simp
  note T = failed_commit_requeues_batch [OF h1 h2, of strict 9]
  from T have a: "queue (resume strict 0 False 9 ex_mixed) =
      queue ex_mixed @ map bump [bump (bump ex_bad), ex_good]"
    and b: "remote (resume strict 0 False 9 ex_mixed) = remote ex_mixed"
    by blast+
  from a q b r h1 h2 s pb show ?thesis
    by simp
qed

section \<open>Identity of an item across retries\<close>

text \<open>
  C6: every item that \<open>processBatch\<close> puts back onto the queue, after a failed
  construction or after a failed commit, is an item of the batch with only
  \<open>attempts\<close> changed; it carries the id of the original, and no id is generated.
\<close>

theorem requeued_items_keep_id:
  assumes "firebaseDB w" and "currentUser w = Some uid" and "processBatch fs b w = (w1, t)"
  shows "(\<exists>ys. queue w1 = queue w @ ys \<and>
            (\<forall>y\<in>set ys. \<exists>x\<in>set b. y = x\<lparr>attempts := attempts x + 1\<rparr> \<and>
                                      item_id y = item_id x)) \<and>
         (\<forall>b' ops n. t = AwaitCommit b' ops n \<longrightarrow>
            (\<exists>zs. queue (processBatch_committed False now b' ops n w2) = queue w2 @ zs \<and>
                  map item_id zs = map item_id b \<and>
                  (\<forall>z\<in>set zs. \<exists>x\<in>set b. z\<lparr>attempts := attempts x\<rparr> = x)))"
proof (intro conjI allI impI)
  let ?r = "retryAttempts w"
  note pb = processBatch_session [OF assms(1,2), of fs b]
  from pb assms(3) have w1: "queue w1 = queue w @ requeued fs uid ?r b"
    by auto
  have "\<forall>y\<in>set (requeued fs uid ?r b).
          \<exists>x\<in>set b. y = x\<lparr>attempts := attempts x + 1\<rparr> \<and> item_id y = item_id x"
    by (auto simp: requeued_def bump_def)
  with w1 show "\<exists>ys. queue w1 = queue w @ ys \<and>
            (\<forall>y\<in>set ys. \<exists>x\<in>set b. y = x\<lparr>attempts := attempts x + 1\<rparr> \<and>
                                      item_id y = item_id x)"
    by blast
next
  fix b' ops n
  assume t: "t = AwaitCommit b' ops n"
  let ?r = "retryAttempts w"
  note pb = processBatch_session [OF assms(1,2), of fs b]
  from pb assms(3) t have b': "b' = after_loop fs uid ?r b"
    by (auto split: if_splits)
  have "\<exists>x\<in>set b. z\<lparr>attempts := attempts x\<rparr> = x" if "z \<in> set (map bump b')" for z
  proof -
    from that obtain x where x: "x \<in> set b"
      and z: "z = bump (if retried fs uid ?r x then bump x else x)"
      unfolding b' after_loop_def by auto
    from z have "z\<lparr>attempts := attempts x\<rparr> = x"
      by (simp add: bump_def)
    with x show ?thesis ..
  qed
  then have "\<forall>z\<in>set (map bump b'). \<exists>x\<in>set b. z\<lparr>attempts := attempts x\<rparr> = x"
    by blast
  moreover have "map item_id (map bump b') = map item_id b"
    unfolding b' by (simp add: comp_def after_loop_def)
  ultimately show "\<exists>zs. queue (processBatch_committed False now b' ops n w2) = queue w2 @ zs \<and>
                  map item_id zs = map item_id b \<and>
                  (\<forall>z\<in>set zs. \<exists>x\<in>set b. z\<lparr>attempts := attempts x\<rparr> = x)"
    using queue_processBatch_committed_failed [of now b' ops n w2] by blast
qed

theorem requeued_items_keep_id_witness:
  "firebaseDB ex_world \<and> currentUser ex_world = Some ''u'' \<and>
   processBatch strict [bump ex_bad, ex_good] ex_world =
     (ex_world\<lparr>queue := [bump (bump ex_bad)], console := [ErrProcessing ''create'']\<rparr>,
      AwaitCommit [bump (bump ex_bad), ex_good] [Delete (''u'', ''invoices'', ''d7'')] 1) \<and>
   (\<exists>zs. queue (processBatch_committed False 9 [bump (bump ex_bad), ex_good]
                  [Delete (''u'', ''invoices'', ''d7'')] 1 ex_mixed) = queue ex_mixed @ zs \<and>
         map item_id zs = [''g1'', ''d7''])"
proof -
  have s: "firebaseDB ex_world" "currentUser ex_world = Some ''u''"
    by code_simp+
  have pb: "processBatch strict [bump ex_bad, ex_good] ex_world =
      (ex_world\<lparr>queue := [bump (bump ex_bad)], console := [ErrProcessing ''create'']\<rparr>,
       AwaitCommit [bump (bump ex_bad), ex_good] [Delete (''u'', ''invoices'', ''d7'')] 1)"
    by code_simp
  have ids: "map item_id [bump ex_bad, ex_good] = [''g1'', ''d7'']"
    by code_simp
  from requeued_items_keep_id [OF s pb, of 9 ex_mixed]
  have "\<exists>zs. queue (processBatch_committed False 9 [bump (bump ex_bad), ex_good]
                  [Delete (''u'', ''invoices'', ''d7'')] 1 ex_mixed) = queue ex_mixed @ zs \<and>
         map item_id zs = map item_id [bump ex_bad, ex_good]"
    by blast
  with s pb ids show ?thesis
    by simp
qed

section \<open>Immediate sync\<close>

lemma frame_saveFirestoreStats [simp]:
  "queue (saveFirestoreStats w) = queue w"
  "processing (saveFirestoreStats w) = processing w"
  "batchSize (saveFirestoreStats w) = batchSize w"
  "retryAttempts (saveFirestoreStats w) = retryAttempts w"
  "currentUser (saveFirestoreStats w) = currentUser w"
  "firebaseDB (saveFirestoreStats w) = firebaseDB w"
  "remote (saveFirestoreStats w) = remote w"
  "drains (saveFirestoreStats w) = drains w"
  by (simp_all add: saveFirestoreStats_def)

lemma frame_updateFirestoreDisplay [simp]:
  "queue (updateFirestoreDisplay now w) = queue w"
  "processing (updateFirestoreDisplay now w) = processing w"
  "batchSize (updateFirestoreDisplay now w) = batchSize w"
  "retryAttempts (updateFirestoreDisplay now w) = retryAttempts w"
  "currentUser (updateFirestoreDisplay now w) = currentUser w"
  "firebaseDB (updateFirestoreDisplay now w) = firebaseDB w"
  "remote (updateFirestoreDisplay now w) = remote w"
  "drains (updateFirestoreDisplay now w) = drains w"
  by (simp_all add: updateFirestoreDisplay_def updateFirestoreChart_def Let_def
      split: option.splits)

lemma frame_checkAndAutoReset [simp]:
  "queue (checkAndAutoResetFirestoreStats now w) = queue w"
  "processing (checkAndAutoResetFirestoreStats now w) = processing w"
  "batchSize (checkAndAutoResetFirestoreStats now w) = batchSize w"
  "retryAttempts (checkAndAutoResetFirestoreStats now w) = retryAttempts w"
  "currentUser (checkAndAutoResetFirestoreStats now w) = currentUser w"
  "firebaseDB (checkAndAutoResetFirestoreStats now w) = firebaseDB w"
  "remote (checkAndAutoResetFirestoreStats now w) = remote w"
  "drains (checkAndAutoResetFirestoreStats now w) = drains w"
  by (simp_all add: checkAndAutoResetFirestoreStats_def Let_def split: option.splits)

lemma frame_trackFirestoreWrite [simp]:
  "queue (trackFirestoreWrite n now w) = queue w"
  "processing (trackFirestoreWrite n now w) = processing w"
  "batchSize (trackFirestoreWrite n now w) = batchSize w"
  "retryAttempts (trackFirestoreWrite n now w) = retryAttempts w"
  "currentUser (trackFirestoreWrite n now w) = currentUser w"
  "firebaseDB (trackFirestoreWrite n now w) = firebaseDB w"
  "remote (trackFirestoreWrite n now w) = remote w"
  "drains (trackFirestoreWrite n now w) = drains w"
  by (simp_all add: trackFirestoreWrite_def Let_def)

lemma writes_trackFirestoreWrite:
  "writes (firestoreStats (trackFirestoreWrite n now w)) =
     writes (firestoreStats (checkAndAutoResetFirestoreStats now w)) + n"
  by (simp add: stats_trackFirestoreWrite Let_def)

lemma build_write_accepted:
  "accepted fs uid x \<Longrightarrow> build_write fs uid x = Added (item_write uid x)"
  by (auto simp: accepted_def build_write_def item_write_def)

text \<open>
  C8: without a session \<open>immediateSync\<close> throws the not-logged-in error and changes
  nothing: the queue is untouched and nothing is written remotely. With a session, an
  operation that is one of the three and a reference and payload that the SDK accepts,
  it sends exactly one write, the one of the item, and never touches the queue: when
  the write succeeds the remote store has gained that one write, the result is
  \<open>true\<close>, and the write count is one more than the count that the reset check of
  \<open>trackFirestoreWrite\<close> leaves (one more than before when no reset is due); when the
  write is rejected nothing is committed, the stats are unchanged and the error is
  thrown to the caller.
\<close>

theorem immediateSync_session_and_write:
  "(currentUser w = None \<or> \<not> firebaseDB w \<longrightarrow>
      immediateSync fs coll d op fb res thrown now w = (w, Inl NotLoggedIn)) \<and>
   (currentUser w = Some uid \<and> firebaseDB w \<and>
    accepted fs uid (new_item op coll d (Some (data_id d fb)) fb now) \<longrightarrow>
      (let x = new_item op coll d (Some (data_id d fb)) fb now;
           (w1, r1) = immediateSync fs coll d op fb None thrown now w;
           (w2, r2) = immediateSync fs coll d op fb (Some e) thrown now w
       in r1 = Inr True \<and> remote w1 = remote w @ [[item_write uid x]] \<and> queue w1 = queue w \<and>
          writes (firestoreStats w1) =
            writes (firestoreStats (checkAndAutoResetFirestoreStats now w)) + 1 \<and>
          (now - lastReset (firestoreStats w) < day_ms \<longrightarrow>
             writes (firestoreStats w1) = writes (firestoreStats w) + 1) \<and>
          r2 = Inl (RemoteError e) \<and> remote w2 = remote w \<and> queue w2 = queue w \<and>
          firestoreStats w2 = firestoreStats w))"
proof (intro conjI impI)
  assume "currentUser w = None \<or> \<not> firebaseDB w"
  then show "immediateSync fs coll d op fb res thrown now w = (w, Inl NotLoggedIn)"
    by (auto simp: immediateSync_def split: option.splits bool.splits)
next
  assume a: "currentUser w = Some uid \<and> firebaseDB w \<and>
    accepted fs uid (new_item op coll d (Some (data_id d fb)) fb now)"
  let ?x = "new_item op coll d (Some (data_id d fb)) fb now"
  have id: "item_id ?x = data_id d fb"
    by (simp add: new_item_def data_id_def split: option.splits)
  have x: "\<lparr>operation = op, collection = coll, data = d, item_id = data_id d fb,
            timestamp = now, attempts = 0\<rparr> = ?x"
    using id by (simp add: new_item_def)
  from a have bw: "build_write fs uid ?x = Added (item_write uid ?x)"
    by (simp add: build_write_accepted)
  from a bw show "let x = new_item op coll d (Some (data_id d fb)) fb now;
           (w1, r1) = immediateSync fs coll d op fb None thrown now w;
           (w2, r2) = immediateSync fs coll d op fb (Some e) thrown now w
       in r1 = Inr True \<and> remote w1 = remote w @ [[item_write uid x]] \<and> queue w1 = queue w \<and>
          writes (firestoreStats w1) =
            writes (firestoreStats (checkAndAutoResetFirestoreStats now w)) + 1 \<and>
          (now - lastReset (firestoreStats w) < day_ms \<longrightarrow>
             writes (firestoreStats w1) = writes (firestoreStats w) + 1) \<and>
          r2 = Inl (RemoteError e) \<and> remote w2 = remote w \<and> queue w2 = queue w \<and>
          firestoreStats w2 = firestoreStats w"
    by (simp add: immediateSync_def x Let_def writes_trackFirestoreWrite
        stats_checkAndAutoReset)
qed

theorem immediateSync_session_and_write_witness:
  "currentUser (init 0) = None \<and>
   immediateSync permissive ''invoices'' [(''amount'', ''50'')] ''delete'' ''1700'' None ''e'' 5
     (init 0) = (init 0, Inl NotLoggedIn) \<and>
   currentUser ex_world = Some ''u'' \<and> firebaseDB ex_world \<and>
   accepted permissive ''u''
     (new_item ''delete'' ''invoices'' [(''id'', ''d7'')]
        (Some (data_id [(''id'', ''d7'')] ''1700'')) ''1700'' 5) \<and>
   snd (immediateSync permissive ''invoices'' [(''id'', ''d7'')] ''delete'' ''1700'' None ''e'' 5
          ex_world) = Inr True \<and>
   remote (fst (immediateSync permissive ''invoices'' [(''id'', ''d7'')] ''delete'' ''1700'' None
                  ''e'' 5 ex_world)) = [[Delete (''u'', ''invoices'', ''d7'')]] \<and>
   writes (firestoreStats (fst (immediateSync permissive ''invoices'' [(''id'', ''d7'')]
                                  ''delete'' ''1700'' None ''e'' 5 ex_world))) = 1 \<and>
   snd (immediateSync permissive ''invoices'' [(''id'', ''d7'')] ''delete'' ''1700''
          (Some ''quota'') ''e'' 5 ex_world) = Inl (RemoteError ''quota'')"
proof -
  have n: "currentUser (init 0) = None"
    by code_simp
  have s: "currentUser ex_world = Some ''u''" "firebaseDB ex_world"
    by code_simp+
  have acc: "accepted permissive ''u''
     (new_item ''delete'' ''invoices'' [(''id'', ''d7'')]
        (Some (data_id [(''id'', ''d7'')] ''1700'')) ''1700'' 5)"
    by code_simp
  have v: "remote ex_world = []"
    "writes (firestoreStats (checkAndAutoResetFirestoreStats 5 ex_world)) = 0"
    "item_write ''u'' (new_item ''delete'' ''invoices'' [(''id'', ''d7'')]
        (Some (data_id [(''id'', ''d7'')] ''1700'')) ''1700'' 5) =
     Delete (''u'', ''invoices'', ''d7'')"
    by code_simp+
  from immediateSync_session_and_write
    [of "init 0" permissive "''invoices''" "[(''amount'', ''50'')]" "''delete''" "''1700''" None
        "''e''" 5] n
  have a: "immediateSync permissive ''invoices'' [(''amount'', ''50'')] ''delete'' ''1700'' None
      ''e'' 5 (init 0) = (init 0, Inl NotLoggedIn)"
    by blast
  from immediateSync_session_and_write
    [of ex_world permissive "''invoices''" "[(''id'', ''d7'')]" "''delete''" "''1700''" None
        "''e''" 5 "''u''" "''quota''"] s acc
  have b: "let x = new_item ''delete'' ''invoices'' [(''id'', ''d7'')]
                     (Some (data_id [(''id'', ''d7'')] ''1700'')) ''1700'' 5;
           (w1, r1) = immediateSync permissive ''invoices'' [(''id'', ''d7'')] ''delete'' ''1700''
                        None ''e'' 5 ex_world;
           (w2, r2) = immediateSync permissive ''invoices'' [(''id'', ''d7'')] ''delete'' ''1700''
                        (Some ''quota'') ''e'' 5 ex_world
       in r1 = Inr True \<and> remote w1 = remote ex_world @ [[item_write ''u'' x]] \<and>
          queue w1 = queue ex_world \<and>
          writes (firestoreStats w1) =
            writes (firestoreStats (checkAndAutoResetFirestoreStats 5 ex_world)) + 1 \<and>
          (5 - lastReset (firestoreStats ex_world) < day_ms \<longrightarrow>
             writes (firestoreStats w1) = writes (firestoreStats ex_world) + 1) \<and>
          r2 = Inl (RemoteError ''quota'') \<and> remote w2 = remote ex_world \<and>
          queue w2 = queue ex_world \<and> firestoreStats w2 = firestoreStats ex_world"
    by blast
  from b v have c:
    "snd (immediateSync permissive ''invoices'' [(''id'', ''d7'')] ''delete'' ''1700'' None ''e'' 5
          ex_world) = Inr True \<and>
     remote (fst (immediateSync permissive ''invoices'' [(''id'', ''d7'')] ''delete'' ''1700'' None
                  ''e'' 5 ex_world)) = [[Delete (''u'', ''invoices'', ''d7'')]] \<and>
     writes (firestoreStats (fst (immediateSync permissive ''invoices'' [(''id'', ''d7'')]
                                  ''delete'' ''1700'' None ''e'' 5 ex_world))) = 1 \<and>
     snd (immediateSync permissive ''invoices'' [(''id'', ''d7'')] ''delete'' ''1700''
          (Some ''quota'') ''e'' 5 ex_world) = Inl (RemoteError ''quota'')"
    by (simp add: Let_def split_beta)
  from n a s acc c show ?thesis
    by blast
qed

section \<open>Items whose construction fails\<close>

lemma build_write_bump [simp]: "build_write fs uid (bump x) = build_write fs uid x"
  by (simp add: build_write_def bump_def)







section \<open>Executions in which nothing fails\<close>

lemma accepted_batch:
  assumes "list_all (accepted fs uid) b"
  shows "requeued fs uid r b = []" and "errors_of fs uid b = []"
    and "after_loop fs uid r b = b" and "writes_of fs uid b = map (item_write uid) b"
  using assms
  by (induction b)
    (simp_all add: requeued_def errors_of_def after_loop_def writes_of_def retried_def
      build_write_accepted)

lemma loop_head_accepted:
  assumes "firebaseDB w" and "currentUser w = Some uid" and "0 < batchSize w"
    and "list_all (accepted fs uid) (queue w)" and "queue w \<noteq> []"
  shows "loop_head fs w =
           (w\<lparr>queue := drop (batchSize w) (queue w)\<rparr>,
            Some (AwaitCommit (take (batchSize w) (queue w))
                    (map (item_write uid) (take (batchSize w) (queue w)))
                    (length (take (batchSize w) (queue w)))))"
proof -
  let ?b = "take (batchSize w) (queue w)"
  let ?w1 = "w\<lparr>queue := drop (batchSize w) (queue w)\<rparr>"
  have acc: "list_all (accepted fs uid) ?b"
    using assms(4) by (simp add: list_all_iff) (meson in_set_takeD)
  have ne: "?b \<noteq> []"
    using assms(3,5) by simp
  have "processBatch fs ?b ?w1 =
          (?w1, AwaitCommit ?b (map (item_write uid) ?b) (length ?b))"
    using assms(1,2) ne
    by (simp add: processBatch_session [of ?w1 uid] accepted_batch [OF acc])
  with assms(5) show ?thesis
    by (simp add: loop_head_def Let_def)
qed

lemma healthy_idle:
  "healthy fs uid E w \<Longrightarrow> drains w = [] \<Longrightarrow>
   \<not> processing w \<and> queue w = [] \<and> concat (remote w) = map (item_write uid) E"
  by (simp add: healthy_def)

lemma healthy_busy:
  "healthy fs uid E w \<Longrightarrow> drains w \<noteq> [] \<Longrightarrow> processing w \<and> (\<exists>t. drains w = [t])"
  by (auto simp: healthy_def split: list.splits task.splits)

lemma healthy_processQueue:
  assumes "healthy fs uid E w"
  shows "processQueue fs w = w"
proof (cases "drains w")
  case Nil
  with assms have "queue w = []"
    by (simp add: healthy_def)
  then show ?thesis
    by (simp add: processQueue_def)
next
  case (Cons t ts)
  with assms have "processing w"
    using healthy_busy by fastforce
  then show ?thesis
    by (simp add: processQueue_def)
qed

lemma enqueue_new_item:
  "enqueue fs op coll d idopt gen now w =
     (let w1 = w\<lparr>queue := queue w @ [new_item op coll d idopt gen now]\<rparr>
      in if \<not> processing w1 then processQueue fs w1 else w1)"
  by (simp add: enqueue_def new_item_def Let_def)

lemma healthy_enqueue:
  assumes h: "healthy fs uid E w" and a: "accepted fs uid (new_item op coll d idopt gen now)"
  shows "healthy fs uid (E @ [new_item op coll d idopt gen now])
           (enqueue fs op coll d idopt gen now w)"
proof (cases "drains w")
  case Nil
  let ?x = "new_item op coll d idopt gen now"
  let ?w1 = "w\<lparr>queue := [?x], processing := True\<rparr>"
  from h Nil have i: "\<not> processing w" "queue w = []"
    "concat (remote w) = map (item_write uid) E"
    by (simp_all add: healthy_def)
  from h have s: "firebaseDB w" "currentUser w = Some uid" "0 < batchSize w"
    by (simp_all add: healthy_def)
  have lh: "loop_head fs ?w1 =
      (?w1\<lparr>queue := []\<rparr>, Some (AwaitCommit [?x] [item_write uid ?x] 1))"
    using loop_head_accepted [of ?w1 uid fs] s a by simp
  have "enqueue fs op coll d idopt gen now w =
      w\<lparr>queue := [], processing := True,
         drains := [AwaitCommit [?x] [item_write uid ?x] 1]\<rparr>"
    using i Nil by (simp add: enqueue_new_item processQueue_def lh)
  with h i show ?thesis
    by (simp add: healthy_def)
next
  case (Cons t ts)
  with h have p: "processing w" and ts: "ts = []"
    using healthy_busy by fastforce+
  then have e: "enqueue fs op coll d idopt gen now w =
      w\<lparr>queue := queue w @ [new_item op coll d idopt gen now]\<rparr>"
    by (simp add: enqueue_new_item)
  from h a Cons ts show ?thesis
    unfolding e by (cases t) (simp_all add: healthy_def)
qed

lemma healthy_resume:
  assumes h: "healthy fs uid E w"
  shows "healthy fs uid E (resume fs k True now w) \<and>
         (drains w \<noteq> [] \<longrightarrow> k = 0 \<longrightarrow> remaining (resume fs k True now w) < remaining w)"
proof (cases "drains w")
  case Nil
  with h show ?thesis
    by (simp add: resume_def)
next
  case (Cons t ts)
  with h have p: "processing w" and ts: "ts = []"
    using healthy_busy by fastforce+
  from h have s: "firebaseDB w" "currentUser w = Some uid" "0 < batchSize w"
    "list_all (accepted fs uid) (queue w)"
    by (simp_all add: healthy_def)
  show ?thesis
  proof (cases k)
    case (Suc j)
    with Cons ts h show ?thesis
      by (simp add: resume_def)
  next
    case 0
    show ?thesis
    proof (cases t)
      case (AwaitCommit b ops n)
      with h Cons ts 0 show ?thesis
        by (auto simp: resume_def resume_task_def processBatch_committed_def Let_def
            healthy_def remaining_def)
    next
      case AwaitBatch
      with h Cons ts 0 show ?thesis
        by (auto simp: resume_def resume_task_def after_batch_def healthy_def remaining_def)
    next
      case Sleeping
      show ?thesis
      proof (cases "queue w = []")
        case True
        with h Cons ts 0 Sleeping show ?thesis
          by (auto simp: resume_def resume_task_def loop_head_def healthy_def remaining_def)
      next
        case False
        let ?b = "take (batchSize w) (queue w)"
        let ?r = "drop (batchSize w) (queue w)"
        have acc: "list_all (accepted fs uid) ?r"
          using s(4) by (simp add: list_all_iff) (meson in_set_dropD)
        have len: "length ?r < length (queue w)"
          using s(3) False by simp
        have e: "resume fs k True now w =
            w\<lparr>queue := ?r,
               drains := [AwaitCommit ?b (map (item_write uid) ?b) (length ?b)]\<rparr>"
          using Cons ts 0 Sleeping
          by (simp add: resume_def resume_task_def loop_head_accepted [OF s False])
        have "map (item_write uid) ?b @ map (item_write uid) ?r =
            map (item_write uid) (queue w)"
          by (simp flip: map_append)
        with h Cons ts Sleeping acc len show ?thesis
          unfolding e by (simp add: healthy_def remaining_def)
      qed
    qed
  qed
qed

lemma healthy_step:
  assumes "healthy fs uid E w" and "unfailing fs uid e"
  shows "healthy fs uid (E @ enqueued [e]) (step fs e w)"
proof (cases e)
  case (Enqueue op coll d idopt gen now)
  with assms show ?thesis
    by (simp add: healthy_enqueue)
next
  case Drain
  with assms show ?thesis
    by (simp add: healthy_processQueue)
next
  case (Resume k ok now)
  with assms show ?thesis
    by (simp add: healthy_resume)
next
  case Clear
  with assms show ?thesis by simp
next
  case (SetSession u db)
  with assms show ?thesis by simp
qed

lemma enqueued_Cons: "enqueued (e # es) = enqueued [e] @ enqueued es"
  by (cases e) simp_all

lemma healthy_run:
  assumes "healthy fs uid E w" and "list_all (unfailing fs uid) es"
  shows "healthy fs uid (E @ enqueued es) (run fs es w)"
  using assms
proof (induction es arbitrary: E w)
  case Nil
  then show ?case by simp
next
  case (Cons e es)
  from Cons.prems have "healthy fs uid (E @ enqueued [e]) (step fs e w)"
    by (simp add: healthy_step)
  with Cons.prems have "healthy fs uid ((E @ enqueued [e]) @ enqueued es) (run fs es (step fs e w))"
    by (intro Cons.IH) simp_all
  then show ?case
    by (simp add: enqueued_Cons [of e es])
qed

lemma drain_completes:
  assumes "healthy fs uid E w" and "remaining w \<le> n"
  shows "drains (run fs (replicate n (Resume 0 True t)) w) = [] \<and>
         healthy fs uid E (run fs (replicate n (Resume 0 True t)) w)"
  using assms
proof (induction n arbitrary: w)
  case 0
  then have "drains w = []"
    by (simp add: remaining_def split: list.splits task.splits)
  with 0 show ?case by simp
next
  case (Suc n)
  let ?w = "resume fs 0 True t w"
  from healthy_resume [OF Suc.prems(1), of 0 t]
  have h: "healthy fs uid E ?w"
    and d: "drains w \<noteq> [] \<longrightarrow> remaining ?w < remaining w"
    by simp_all
  have "remaining ?w \<le> n"
  proof (cases "drains w = []")
    case True
    then show ?thesis
      by (simp add: resume_def remaining_def)
  next
    case False
    with d Suc.prems(2) show ?thesis by simp
  qed
  with h Suc.IH [of ?w] show ?case
    by simp
qed

lemma run_append: "run fs (es @ es') w = run fs es' (run fs es w)"
  by (induction es arbitrary: w) simp_all

lemma remaining_bound: "remaining w \<le> 3 * length (queue w) + 3"
  by (simp add: remaining_def split: list.splits task.splits)

text \<open>
  C1: start from an idle queue with a session. In every execution made of \<open>enqueue\<close>
  calls of accepted items (operation create, update or delete), \<open>processQueue\<close> calls
  and resumptions of the drain loop after a commit that succeeded, in any order:
  whenever no drain loop is left running, the queue is empty, \<open>processing\<close> is cleared
  and the remote store has committed exactly the writes of the enqueued items, one for
  each item, in the order of enqueueing; and from every point of such an execution the
  drain loop does run to completion, within \<open>3 * length queue + 3\<close> resumptions, and
  ends in such a state, with as many committed operations as items enqueued.
\<close>

theorem drain_commits_every_item_once:
  assumes "queue w0 = []" and "\<not> processing w0" and "drains w0 = []" and "remote w0 = []"
    and "firebaseDB w0" and "currentUser w0 = Some uid" and "0 < batchSize w0"
    and "list_all (unfailing fs uid) es"
  shows "(drains (run fs es w0) = [] \<longrightarrow>
            queue (run fs es w0) = [] \<and> \<not> processing (run fs es w0) \<and>
            concat (remote (run fs es w0)) = map (item_write uid) (enqueued es)) \<and>
         (let w = run fs es w0;
              w' = run fs (replicate (3 * length (queue w) + 3) (Resume 0 True t)) w
          in drains w' = [] \<and> queue w' = [] \<and> \<not> processing w' \<and>
             concat (remote w') = map (item_write uid) (enqueued es) \<and>
             length (concat (remote w')) = length (enqueued es))"
proof -
  have "healthy fs uid [] w0"
    using assms(1-7) by (simp add: healthy_def)
  from healthy_run [OF this assms(8)]
  have h: "healthy fs uid (enqueued es) (run fs es w0)"
    by simp
  let ?w = "run fs es w0"
  let ?w' = "run fs (replicate (3 * length (queue ?w) + 3) (Resume 0 True t)) ?w"
  from drain_completes [OF h remaining_bound, of t]
  have d: "drains ?w' = []" and h': "healthy fs uid (enqueued es) ?w'"
    by simp_all
  from healthy_idle [OF h' d]
  have "queue ?w' = [] \<and> \<not> processing ?w' \<and>
        concat (remote ?w') = map (item_write uid) (enqueued es)"
    by simp
  moreover from this have "length (concat (remote ?w')) = length (enqueued es)"
    by simp
  moreover have "drains ?w = [] \<longrightarrow>
      queue ?w = [] \<and> \<not> processing ?w \<and> concat (remote ?w) = map (item_write uid) (enqueued es)"
    using healthy_idle [OF h] by blast
  ultimately show ?thesis
    using d by (simp add: Let_def)
qed

theorem drain_commits_every_item_once_witness:
  "queue ex_world = [] \<and> \<not> processing ex_world \<and> drains ex_world = [] \<and>
   remote ex_world = [] \<and> firebaseDB ex_world \<and> currentUser ex_world = Some ''u'' \<and>
   0 < batchSize ex_world \<and> list_all (unfailing permissive ''u'') ex_events \<and>
   drains (run permissive ex_events ex_world) \<noteq> [] \<and>
   drains (run permissive (ex_events @ [Resume 0 True 4, Resume 0 True 5, Resume 0 True 6,
             Resume 0 True 7]) ex_world) = [] \<and>
   concat (remote (run permissive (ex_events @ [Resume 0 True 4, Resume 0 True 5,
             Resume 0 True 6, Resume 0 True 7]) ex_world)) =
     [SetMerge (''u'', ''invoices'', ''g1'')
        [(''amount'', ''100''), (''updatedAt'', serverTimestamp), (''syncedAt'', serverTimestamp)],
      Delete (''u'', ''invoices'', ''d7'')] \<and>
   concat (remote (run permissive
             (replicate (3 * length (queue (run permissive ex_events ex_world)) + 3)
                (Resume 0 True 9))
             (run permissive ex_events ex_world))) =
     [SetMerge (''u'', ''invoices'', ''g1'')
        [(''amount'', ''100''), (''updatedAt'', serverTimestamp), (''syncedAt'', serverTimestamp)],
      Delete (''u'', ''invoices'', ''d7'')]"
proof -
  let ?es' = "ex_events @ [Resume 0 True 4, Resume 0 True 5, Resume 0 True 6, Resume 0 True 7]"
  have a: "queue ex_world = []" "\<not> processing ex_world" "drains ex_world = []"
    "remote ex_world = []" "firebaseDB ex_world" "currentUser ex_world = Some ''u''"
    "0 < batchSize ex_world"
    by code_simp+
  have u: "list_all (unfailing permissive ''u'') ex_events"
    by code_simp
  have u': "list_all (unfailing permissive ''u'') ?es'"
    by code_simp
  have e: "map (item_write ''u'') (enqueued ex_events) =
     [SetMerge (''u'', ''invoices'', ''g1'')
        [(''amount'', ''100''), (''updatedAt'', serverTimestamp), (''syncedAt'', serverTimestamp)],
      Delete (''u'', ''invoices'', ''d7'')]"
    "enqueued ?es' = enqueued ex_events"
    by code_simp+
  have b: "drains (run permissive ex_events ex_world) \<noteq> []"
    "drains (run permissive ?es' ex_world) = []"
    by code_simp+
  from drain_commits_every_item_once [OF a u, of 9]
  have "concat (remote (run permissive
             (replicate (3 * length (queue (run permissive ex_events ex_world)) + 3)
                (Resume 0 True 9))
             (run permissive ex_events ex_world))) = map (item_write ''u'') (enqueued ex_events)"
    by (simp add: Let_def)
  moreover from drain_commits_every_item_once [OF a u', of 9] b(2)
  have "concat (remote (run permissive ?es' ex_world)) = map (item_write ''u'') (enqueued ?es')"
    by blast
  ultimately show ?thesis
    using a u b e by simp
qed

section \<open>The single drain loop\<close>

lemma processQueue_while_processing:
  "processing w \<Longrightarrow> processQueue fs w = w"
  by (simp add: processQueue_def)

lemma enqueue_while_processing:
  "processing w \<Longrightarrow>
   enqueue fs op coll d idopt gen now w =
     w\<lparr>queue := queue w @ [new_item op coll d idopt gen now]\<rparr>"
  by (simp add: enqueue_new_item)

lemma frame_processBatch:
  assumes "processBatch fs b w = (w', t)"
  shows "processing w' = processing w" and "drains w' = drains w"
  using assms
  by (auto simp: processBatch_def build_batch_eq split: option.splits bool.splits if_splits)

lemma frame_processBatch_committed [simp]:
  "processing (processBatch_committed ok now b ops n w) = processing w"
  "drains (processBatch_committed ok now b ops n w) = drains w"
  by (simp_all add: processBatch_committed_def Let_def)

lemma loop_head_cases:
  assumes "loop_head fs w = (w', r)"
  shows "drains w' = drains w \<and>
         (case r of None \<Rightarrow> \<not> processing w' | Some t \<Rightarrow> processing w' = processing w)"
proof (cases "queue w = []")
  case True
  with assms show ?thesis
    by (auto simp: loop_head_def)
next
  case False
  let ?w1 = "w\<lparr>queue := drop (batchSize w) (queue w)\<rparr>"
  obtain w2 t where pb: "processBatch fs (take (batchSize w) (queue w)) ?w1 = (w2, t)"
    by (cases "processBatch fs (take (batchSize w) (queue w)) ?w1")
  with assms False have "w' = w2" "r = Some t"
    by (simp_all add: loop_head_def Let_def)
  with frame_processBatch [OF pb] show ?thesis
    by simp
qed

lemma one_drain_processQueue:
  assumes "one_drain w"
  shows "one_drain (processQueue fs w)"
proof (cases "processing w \<or> queue w = []")
  case True
  with assms show ?thesis
    by (simp add: processQueue_def)
next
  case False
  let ?w1 = "w\<lparr>processing := True\<rparr>"
  obtain w' r where lh: "loop_head fs ?w1 = (w', r)"
    by (cases "loop_head fs ?w1")
  from False assms have d: "drains w = []"
    by (simp add: one_drain_def)
  from loop_head_cases [OF lh] d False lh show ?thesis
    by (cases r) (simp_all add: processQueue_def one_drain_def)
qed

lemma one_drain_enqueue:
  assumes "one_drain w"
  shows "one_drain (enqueue fs op coll d idopt gen now w)"
proof -
  let ?w1 = "w\<lparr>queue := queue w @ [new_item op coll d idopt gen now]\<rparr>"
  from assms have "one_drain ?w1"
    by (simp add: one_drain_def)
  then show ?thesis
    by (simp add: enqueue_new_item Let_def one_drain_processQueue)
qed

lemma one_drain_resume:
  assumes "one_drain w"
  shows "one_drain (resume fs k ok now w)"
proof (cases "k < length (drains w)")
  case False
  with assms show ?thesis
    by (simp add: resume_def)
next
  case True
  with assms have p: "processing w" and k: "k = 0"
    by (auto simp: one_drain_def split: if_splits)
  from assms p obtain t where d: "drains w = [t]"
    by (auto simp: one_drain_def length_Suc_conv)
  show ?thesis
  proof (cases t)
    case (AwaitCommit b ops n)
    with d k p show ?thesis
      by (simp add: resume_def resume_task_def one_drain_def)
  next
    case AwaitBatch
    with d k p show ?thesis
      by (simp add: resume_def resume_task_def after_batch_def one_drain_def)
  next
    case Sleeping
    obtain w' r where lh: "loop_head fs w = (w', r)"
      by (cases "loop_head fs w")
    from loop_head_cases [OF lh] d k p Sleeping lh show ?thesis
      by (cases r) (simp_all add: resume_def resume_task_def one_drain_def)
  qed
qed

lemma one_drain_step:
  assumes "one_drain w" and "e \<noteq> Clear"
  shows "one_drain (step fs e w)"
proof (cases e)
  case (Enqueue op coll d idopt gen now)
  with assms show ?thesis by (simp add: one_drain_enqueue)
next
  case Drain
  with assms show ?thesis by (simp add: one_drain_processQueue)
next
  case (Resume k ok now)
  with assms show ?thesis by (simp add: one_drain_resume)
next
  case Clear
  with assms show ?thesis by simp
next
  case (SetSession u db)
  with assms show ?thesis by (simp add: one_drain_def)
qed

lemma one_drain_run:
  assumes "one_drain w" and "Clear \<notin> set es"
  shows "one_drain (run fs es w)"
  using assms
proof (induction es arbitrary: w)
  case Nil
  then show ?case by simp
next
  case (Cons e es)
  then have "one_drain (step fs e w)"
    by (intro one_drain_step) auto
  with Cons show ?case by simp
qed

lemma at_most_one_drain_without_clear:
  assumes "one_drain w" and "Clear \<notin> set es"
  shows "length (drains (run fs es w)) \<le> 1"
  using one_drain_run [OF assms, of fs]
  by (simp add: one_drain_def split: if_splits)

text \<open>
  C2 at the input where the code departs from it. While \<open>processing\<close> is set,
  \<open>processQueue\<close> is a no-op and \<open>enqueue\<close> only appends (the two lemmas above), and
  in every execution without \<open>clear\<close> at most one drain loop is suspended. But
  \<open>clear\<close> clears the flag while a drain loop waits for its commit: the next
  \<open>enqueue\<close> starts a second loop, and two loops wait at once. When the first one
  ends it clears \<open>processing\<close> although the second is still running.
\<close>

theorem second_drain_after_clear:
  "length (drains (run permissive
      [Enqueue ''create'' ''invoices'' [] None ''g1'' 1, Clear,
       Enqueue ''create'' ''invoices'' [] None ''g2'' 2] ex_world)) = 2 \<and>
   processing (run permissive
      [Enqueue ''create'' ''invoices'' [] None ''g1'' 1, Clear,
       Enqueue ''create'' ''invoices'' [] None ''g2'' 2] ex_world) \<and>
   drains (run permissive
      [Enqueue ''create'' ''invoices'' [] None ''g1'' 1, Clear,
       Enqueue ''create'' ''invoices'' [] None ''g2'' 2,
       Resume 0 True 3, Resume 0 True 4] ex_world) =
     [AwaitCommit [new_item ''create'' ''invoices'' [] None ''g2'' 2]
        [item_write ''u'' (new_item ''create'' ''invoices'' [] None ''g2'' 2)] 1] \<and>
   \<not> processing (run permissive
      [Enqueue ''create'' ''invoices'' [] None ''g1'' 1, Clear,
       Enqueue ''create'' ''invoices'' [] None ''g2'' 2,
       Resume 0 True 3, Resume 0 True 4] ex_world)"
  by code_simp

end
